theory Spec2Isabelle
  imports Complex_Main "HOL-Library.Word"
begin

unbundle bit_operations_syntax

section \<open>Python values and errors\<close>

text \<open>
  The notebooks are Python. Integers are unbounded (\<open>int\<close>), the LLR samples are
  floating-point numbers. Every operation that \<open>format_llr\<close> applies to a sample
  (comparison with a constant, multiplication by 4, rounding to an integer) is exact
  on binary floating-point numbers of that magnitude, so the samples are modelled as
  \<open>real\<close>: every finite float is a real, and the model computes on it what the
  code computes. Exceptions are values of \<open>py_error\<close>, returned on the left of a sum.
\<close>

datatype py_error = ValueError | IndexError | KeyError | RuntimeError string

section \<open>LLR formatting (notebook H/04, \<open>format_llr\<close>)\<close>

text \<open>
  \<open>np.round\<close> rounds to the nearest integer and a tie to the even neighbour; its
  result is still a float. \<open>int\<close> of a float truncates towards zero.
\<close>

definition np_round :: "real \<Rightarrow> real" where
  "np_round x =
     (let f = \<lfloor>x\<rfloor>; r = x - of_int f
      in if r < 1 / 2 then of_int f
         else if r > 1 / 2 then of_int (f + 1)
         else if even f then of_int f else of_int (f + 1))"

definition py_int :: "real \<Rightarrow> int" where
  "py_int x = (if x \<ge> 0 then \<lfloor>x\<rfloor> else \<lceil>x\<rceil>)"

text \<open>
  \<open>'{0:06b}'.format(v)\<close>: the binary digits of \<open>v\<close>, padded with zeros to a width
  of at least six characters; a negative number keeps its sign in front and the sign
  counts towards the width.
\<close>

definition bin_digit :: "nat \<Rightarrow> char" where
  "bin_digit d = (if d = 0 then CHR ''0'' else CHR ''1'')"

fun bin_digits :: "nat \<Rightarrow> string" where
  "bin_digits n =
     (if n < 2 then [bin_digit n] else bin_digits (n div 2) @ [bin_digit (n mod 2)])"

definition zero_pad :: "nat \<Rightarrow> string \<Rightarrow> string" where
  "zero_pad w s = replicate (w - length s) (CHR ''0'') @ s"

definition format_06b :: "int \<Rightarrow> string" where
  "format_06b v =
     (if v < 0 then CHR ''-'' # zero_pad 5 (bin_digits (nat (- v)))
      else zero_pad 6 (bin_digits (nat v)))"

text \<open>
  \<open>int(s, 2)\<close> on the strings that the formatting above can build (an optional sign
  and the characters 0 and 1): any other character, or no digit at all, raises
  \<open>ValueError\<close>.
\<close>

fun bin_value :: "string \<Rightarrow> int \<Rightarrow> int option" where
  "bin_value [] acc = Some acc"
| "bin_value (c # cs) acc =
     (if c = CHR ''0'' then bin_value cs (2 * acc)
      else if c = CHR ''1'' then bin_value cs (2 * acc + 1)
      else None)"

definition py_int_base2 :: "string \<Rightarrow> py_error + int" where
  "py_int_base2 s =
     (case s of
        [] \<Rightarrow> Inl ValueError
      | c # cs \<Rightarrow>
          if c = CHR ''-'' \<or> c = CHR ''+'' then
            (if cs = [] then Inl ValueError
             else (case bin_value cs 0 of
                     None \<Rightarrow> Inl ValueError
                   | Some v \<Rightarrow> Inr (if c = CHR ''-'' then - v else v)))
          else (case bin_value s 0 of
                  None \<Rightarrow> Inl ValueError
                | Some v \<Rightarrow> Inr v))"

text \<open>
  The stages of \<open>format_llr\<close>, in the order of the source: symmetric saturation,
  the integer representation (\<open>llr * pow(2,2)\<close>, then \<open>int(np.round(llr))\<close>), the
  6-bit two's-complement string, and the sign extension to eight characters.
  \<open>binary[0]\<close> raises \<open>IndexError\<close> on an empty string.
\<close>

definition saturate :: "real \<Rightarrow> real" where
  "saturate llr = (if llr > 7.75 then 7.75 else if llr < - 7.75 then - 7.75 else llr)"

definition quantise :: "real \<Rightarrow> int" where
  "quantise llr = py_int (np_round (llr * 2 ^ 2))"

definition to_binary :: "int \<Rightarrow> string" where
  "to_binary llr = (if llr \<ge> 0 then format_06b llr else format_06b (2 ^ 6 + llr))"

definition sign_extend :: "string \<Rightarrow> py_error + string" where
  "sign_extend binary =
     (case binary of
        [] \<Rightarrow> Inl IndexError
      | c # _ \<Rightarrow> Inr (if c = CHR ''0'' then ''00'' @ binary else ''11'' @ binary))"

definition format_llr :: "real \<Rightarrow> py_error + int" where
  "format_llr llr =
     (case sign_extend (to_binary (quantise (saturate llr))) of
        Inl e \<Rightarrow> Inl e
      | Inr binary_extended \<Rightarrow> py_int_base2 binary_extended)"

text \<open>
  How the decoder reads the byte, in the words of the notebook: an 8-bit two's-complement
  number with two fractional bits; and the 8-bit sign extension of a 6-bit
  two's-complement code.
\<close>

definition interpret_llr :: "int \<Rightarrow> real" where
  "interpret_llr v = real_of_int (sint (word_of_int v :: 8 word)) / 2 ^ 2"

definition sign_extend_6_to_8 :: "int \<Rightarrow> int" where
  "sign_extend_6_to_8 q = take_bit 8 (signed_take_bit 5 (take_bit 6 q))"

section \<open>SD-FEC control words (notebooks H/02 and H/04)\<close>

text \<open>
  The encoder control word of notebook H/02:
  \<open>ctrl_word = (block_id << 24) + (code_id << 0)\<close>, on Python integers.
\<close>

definition ctrl_word :: "int \<Rightarrow> int \<Rightarrow> int" where
  "ctrl_word block_id code_id = push_bit 24 block_id + push_bit 0 code_id"

text \<open>
  Reading a field back, as the notebook documents it for the status word: bit masking
  selects the bits \<open>hi:lo\<close> of the word, which are then shifted to the right.
\<close>

definition field_mask :: "nat \<Rightarrow> nat \<Rightarrow> int" where
  "field_mask hi lo = push_bit lo (mask (Suc hi - lo))"

definition extract_field :: "nat \<Rightarrow> nat \<Rightarrow> int \<Rightarrow> int" where
  "extract_field hi lo w = drop_bit lo (w AND field_mask hi lo)"

text \<open>
  A field dictionary is a Python \<open>dict\<close> from field names to integers; a field that
  is left out keeps the default of zero.
\<close>

type_synonym ctrl_params = "string \<rightharpoonup> int"

definition field_or_zero :: "ctrl_params \<Rightarrow> string \<Rightarrow> int" where
  "field_or_zero params k = (case params k of None \<Rightarrow> 0 | Some v \<Rightarrow> v)"

text \<open>
  Modelled from the spec: \<open>create_ctrl_word\<close> of the helper package
  \<open>strath_sdfec.helper_functions\<close> is called by the notebooks and is not among the
  sources. The spec describes it as simple shift-and-add arithmetic from a fixed field
  dictionary; the positions are those of Table 1 of notebook H/04 (external block ID
  31:24, maximum iterations 23:18, terminate on no change 17, terminate on pass 16,
  include parity output 15, hard output 14, code ID 6:0), and the keys are those of the
  dictionaries the notebooks pass.
\<close>

definition create_ctrl_word :: "ctrl_params \<Rightarrow> int" where
  "create_ctrl_word params =
     push_bit 24 (field_or_zero params ''id'')
     + push_bit 18 (field_or_zero params ''max_iterations'')
     + push_bit 17 (field_or_zero params ''term_on_no_change'')
     + push_bit 16 (field_or_zero params ''term_on_pass'')
     + push_bit 15 (field_or_zero params ''include_parity_op'')
     + push_bit 14 (field_or_zero params ''hard_op'')
     + push_bit 0 (field_or_zero params ''code_id'')"

text \<open>
  \<open>ctrl_buffer[0] = ctrl_word\<close> stores the integer into a buffer of one \<open>uint32\<close>
  element, which keeps its 32 low bits.
\<close>

definition store_uint32 :: "int \<Rightarrow> 32 word" where
  "store_uint32 w = word_of_int w"

text \<open>The dictionary of notebook H/04, with the code ID left open.\<close>

definition ctrl_params_H04 :: "int \<Rightarrow> ctrl_params" where
  "ctrl_params_H04 code_id =
     [''id'' \<mapsto> 1, ''max_iterations'' \<mapsto> 63, ''term_on_no_change'' \<mapsto> 1,
      ''term_on_pass'' \<mapsto> 1, ''include_parity_op'' \<mapsto> 0, ''hard_op'' \<mapsto> 1,
      ''code_id'' \<mapsto> code_id]"

section \<open>Reference clocks (radio notebook, clock setup)\<close>

text \<open>
  \<open>xrfclk.set_ref_clks\<close> programs the LMK and LMX clock chips. The clock state is the
  list of calls made so far, each with its LMK and LMX frequency.
\<close>

type_synonym ref_clk_calls = "(real \<times> real) list"

definition set_ref_clks :: "real \<Rightarrow> real \<Rightarrow> ref_clk_calls \<Rightarrow> ref_clk_calls" where
  "set_ref_clks lmk_freq lmx_freq calls = calls @ [(lmk_freq, lmx_freq)]"

text \<open>The \<open>if\<close>/\<open>elif\<close>/\<open>else\<close> chain on \<open>xrfclk.board\<close>.\<close>

definition select_lmk_freq :: "string \<Rightarrow> py_error + real" where
  "select_lmk_freq board =
     (if board \<in> set [''ZCU111'', ''RFSoC2x2''] then Inr 122.88
      else if board \<in> set [''RFSoC4x2''] then Inr 245.76
      else Inl (RuntimeError ''Platform not supported.''))"

text \<open>
  The cell: the chain, then \<open>xrfclk.set_ref_clks(lmk_freq, 409.6)\<close>. The result is the
  exception raised, if any, and the clock state the cell leaves.
\<close>

definition clock_setup :: "string \<Rightarrow> ref_clk_calls \<Rightarrow> py_error option \<times> ref_clk_calls" where
  "clock_setup board calls =
     (case select_lmk_freq board of
        Inl e \<Rightarrow> (Some e, calls)
      | Inr lmk_freq \<Rightarrow> (None, set_ref_clks lmk_freq 409.6 calls))"

section \<open>Data buffers (notebooks H/02, H/04 and H/05)\<close>

text \<open>
  The parameters of an LDPC code as the driver's table \<open>_code_params.ldpc\<close> gives them:
  the block length \<open>n\<close>, the information bits \<open>k\<close> and the sub-matrix size \<open>p\<close>.
\<close>

record ldpc_code =
  code_n :: nat
  code_k :: nat
  code_p :: nat

text \<open>
  \<open>allocate(shape=(len,), dtype=np.uint8)\<close> returns a buffer of \<open>len\<close> bytes holding
  whatever the memory holds; \<open>mem\<close> gives that content.
\<close>

definition allocate :: "(nat \<Rightarrow> 'a) \<Rightarrow> nat \<Rightarrow> 'a list" where
  "allocate mem shape = map mem [0..<shape]"

definition np_ceil :: "real \<Rightarrow> real" where
  "np_ceil x = of_int \<lceil>x\<rceil>"

text \<open>
  The loop that fills the decoder's transmit buffer,
  \<open>for i in range(len(tx_dec_buf)): tx_dec_buf[i] = llrs_formatted[j]; j += 1\<close>:
  reading past the end of \<open>llrs_formatted\<close> raises \<open>IndexError\<close>, and the store keeps
  the low eight bits of the value.
\<close>

fun copy_llrs :: "nat list \<Rightarrow> int list \<Rightarrow> 8 word list \<times> nat \<Rightarrow> py_error + 8 word list \<times> nat" where
  "copy_llrs [] llrs_formatted (buf, j) = Inr (buf, j)"
| "copy_llrs (i # rest) llrs_formatted (buf, j) =
     (if j < length llrs_formatted
      then copy_llrs rest llrs_formatted (buf[i := word_of_int (llrs_formatted ! j)], Suc j)
      else Inl IndexError)"

text \<open>
  Notebook H/04: \<open>K = int(np.ceil(k/8))\<close>, the two decoder buffers, and the transmit
  buffer filled with the formatted LLRs.
\<close>

definition decoder_buffers ::
  "(nat \<Rightarrow> 8 word) \<Rightarrow> nat \<Rightarrow> nat \<Rightarrow> int list \<Rightarrow> py_error + 8 word list \<times> 8 word list" where
  "decoder_buffers mem n k llrs_formatted =
     (let K = nat (py_int (np_ceil (real k / 8)));
          tx_dec_buf = allocate mem n;
          rx_dec_buf = allocate mem K
      in case copy_llrs [0..<length tx_dec_buf] llrs_formatted (tx_dec_buf, 0) of
           Inl e \<Rightarrow> Inl e
         | Inr (tx_dec_buf', j) \<Rightarrow> Inr (tx_dec_buf', rx_dec_buf))"

text \<open>
  Notebook H/02: \<open>K\<close> and \<open>N\<close>, the two encoder buffers, and the transmit buffer filled
  with the draws of \<open>np.random.randint(0,256)\<close>.
\<close>

definition encoder_buffers ::
  "(nat \<Rightarrow> 8 word) \<Rightarrow> (nat \<Rightarrow> 8 word) \<Rightarrow> nat \<Rightarrow> nat \<Rightarrow> 8 word list \<times> 8 word list" where
  "encoder_buffers mem randint n k =
     (let K = nat (py_int (np_ceil (real k / 8)));
          N = nat (py_int (np_ceil (real n / 8)));
          tx_enc_buf = allocate mem K;
          rx_enc_buf = allocate mem N
      in (map randint [0..<length tx_enc_buf], rx_enc_buf))"

text \<open>
  Notebook H/05, \<open>get_data_buffers\<close>. The state it writes: the bypass registers of
  the two cores and the two control buffers. What it reads: the list of code names of
  the decoder and the table of code parameters.
\<close>

record fec_state =
  enc_CORE_BYPASS :: int
  dec_CORE_BYPASS :: int
  enc_ctrl_buffer :: "32 word"
  dec_ctrl_buffer :: "32 word"

record fec_env =
  dec_ldpc_params :: "string list"
  ldpc :: "string \<rightharpoonup> ldpc_code"

record data_buffers =
  enc_tx_buf :: "8 word list"
  enc_rx_buf :: "8 word list"
  dec_tx_buf :: "8 word list"
  dec_rx_buf :: "8 word list"
  block_n :: nat

text \<open>\<open>list.index\<close>: the first position of the element, or \<open>ValueError\<close>.\<close>

fun py_index :: "'a list \<Rightarrow> 'a \<Rightarrow> py_error + nat" where
  "py_index [] x = Inl ValueError"
| "py_index (y # ys) x =
     (if y = x then Inr 0
      else (case py_index ys x of Inl e \<Rightarrow> Inl e | Inr i \<Rightarrow> Inr (Suc i)))"

definition select_code :: "string \<Rightarrow> fec_state \<Rightarrow> string \<times> fec_state" where
  "select_code code_name st =
     (if code_name = ''uncoded''
      then (''docsis_medium'', st\<lparr>enc_CORE_BYPASS := 1, dec_CORE_BYPASS := 1\<rparr>)
      else (code_name, st\<lparr>enc_CORE_BYPASS := 0, dec_CORE_BYPASS := 0\<rparr>))"

definition get_data_buffers ::
  "fec_env \<Rightarrow> (nat \<Rightarrow> 8 word) \<Rightarrow> fec_state \<Rightarrow> string \<Rightarrow> py_error + data_buffers \<times> fec_state" where
  "get_data_buffers env mem st0 code_name0 =
     (let (code_name, st1) = select_code code_name0 st0
      in case py_index (dec_ldpc_params env) code_name of
           Inl e \<Rightarrow> Inl e
         | Inr code_id \<Rightarrow>
             (let enc_ctrl_params = [''id'' \<mapsto> 1, ''code_id'' \<mapsto> int code_id];
                  enc_ctrl_word = create_ctrl_word enc_ctrl_params;
                  st2 = st1\<lparr>enc_ctrl_buffer := store_uint32 enc_ctrl_word\<rparr>;
                  dec_ctrl_params =
                    [''id'' \<mapsto> 1, ''max_iterations'' \<mapsto> 32, ''term_on_no_change'' \<mapsto> 1,
                     ''term_on_pass'' \<mapsto> 1, ''include_parity_op'' \<mapsto> 0, ''hard_op'' \<mapsto> 1,
                     ''code_id'' \<mapsto> int code_id];
                  dec_ctrl_word = create_ctrl_word dec_ctrl_params;
                  st3 = st2\<lparr>dec_ctrl_buffer := store_uint32 dec_ctrl_word\<rparr>
              in case ldpc env code_name of
                   None \<Rightarrow> Inl KeyError
                 | Some c \<Rightarrow>
                     (let n = code_n c; k = code_k c; p = code_p c;
                          K = nat (py_int (np_ceil (real k / 8)));
                          N = nat (py_int (np_ceil (real n / 8)))
                      in Inr (\<lparr>enc_tx_buf = allocate mem K,
                               enc_rx_buf = allocate mem N,
                               dec_tx_buf = allocate mem n,
                               dec_rx_buf = allocate mem K,
                               block_n = n\<rparr>, st3))))"

text \<open>The three DOCSIS 3.1 codes, as an example of a table.\<close>

definition docsis_env :: fec_env where
  "docsis_env =
     \<lparr>dec_ldpc_params = [''docsis_short'', ''docsis_medium'', ''docsis_long''],
      ldpc = [''docsis_short'' \<mapsto> \<lparr>code_n = 1120, code_k = 840, code_p = 56\<rparr>,
              ''docsis_medium'' \<mapsto> \<lparr>code_n = 5940, code_k = 5040, code_p = 180\<rparr>,
              ''docsis_long'' \<mapsto> \<lparr>code_n = 16200, code_k = 14400, code_p = 360\<rparr>]\<rparr>"

section \<open>Serialising and truncating the encoder output (notebook H/05)\<close>

text \<open>
  Modelled from the spec: \<open>serialise\<close> of the helper package
  \<open>strath_sdfec.helper_functions\<close> is called by the notebooks and is not among the
  sources. Notebook H/02 documents it: the buffer is shown as single bits instead of
  8-bit words; a last word that is only partly valid holds its valid bits on the least
  significant bits, and truncating the serial data to \<open>n\<close> bits removes the bits that
  are not valid. So every byte gives eight bits, the least significant first, in the
  order of the buffer.
\<close>

definition byte_bits :: "8 word \<Rightarrow> bool list" where
  "byte_bits w = map (bit w) [0..<8]"

definition serialise :: "8 word list \<Rightarrow> bool list" where
  "serialise buf = concat (map byte_bits buf)"

text \<open>
  The DMA transfer to and from a core writes the receive buffer in place: byte \<open>i\<close> of
  the buffer becomes byte \<open>i\<close> of what the core sends for the transmit buffer.
\<close>

definition fec_data_transfer :: "(8 word list \<Rightarrow> nat \<Rightarrow> 8 word) \<Rightarrow> 8 word list \<Rightarrow> 8 word list \<Rightarrow> 8 word list" where
  "fec_data_transfer core tx_buf rx_buf = map (core tx_buf) [0..<length rx_buf]"

text \<open>
  \<open>transfer_data_block\<close> up to the call of \<open>symbol_map\<close>: random data, the encoder,
  \<open>encoded_data_bits = hf.serialise(enc_rx_buf)\<close> and
  \<open>encoded_data_bits = encoded_data_bits[0:n]\<close>. The modulation, the channel, the
  demodulation and the decoder that follow consume these bits.
\<close>

definition encoder_output ::
  "(8 word list \<Rightarrow> nat \<Rightarrow> 8 word) \<Rightarrow> (nat \<Rightarrow> 8 word) \<Rightarrow> data_buffers \<Rightarrow> 8 word list" where
  "encoder_output enc_core randint data_buffers =
     (let enc_tx_buf = map randint [0..<length (enc_tx_buf data_buffers)]
      in fec_data_transfer enc_core enc_tx_buf (enc_rx_buf data_buffers))"

definition encoded_data_bits ::
  "(8 word list \<Rightarrow> nat \<Rightarrow> 8 word) \<Rightarrow> (nat \<Rightarrow> 8 word) \<Rightarrow> data_buffers \<Rightarrow> bool list" where
  "encoded_data_bits enc_core randint data_buffers =
     (let n = block_n data_buffers;
          encoded_data_bits = serialise (encoder_output enc_core randint data_buffers)
      in take n encoded_data_bits)"

section \<open>Bit error rate (notebooks H/04 and H/05)\<close>

text \<open>
  \<open>N_error = np.sum(rx_bits != tx_bits)\<close>, \<open>N_bits = len(tx_bits)\<close> and
  \<open>BER = N_error / N_bits\<close>. The comparison is elementwise on arrays of one length;
  for arrays of different lengths, or no bits at all, no ratio is computed. The quotient
  of two counts is modelled as a real number.
\<close>

definition N_error :: "'a list \<Rightarrow> 'a list \<Rightarrow> nat" where
  "N_error rx_bits tx_bits = length (filter (\<lambda>(r, t). r \<noteq> t) (zip rx_bits tx_bits))"

definition BER :: "'a list \<Rightarrow> 'a list \<Rightarrow> real option" where
  "BER rx_bits tx_bits =
     (if length rx_bits \<noteq> length tx_bits \<or> tx_bits = [] then None
      else Some (real (N_error rx_bits tx_bits) / real (length tx_bits)))"

section \<open>The interrupt flag and the measurement loop (notebook H/05)\<close>

text \<open>
  The hardware-accelerated measurement runs next to the notebook: the wrapper
  \<open>Interrupt\<close> waits in a thread of its own for the interrupt of the BER core and then
  calls \<open>intr_handler\<close>, and \<open>main\<close> polls the global \<open>intr_flag\<close> in another thread.
  The model interleaves them step by step. The commands sent to the IP cores are kept in
  a log; the measurement that \<open>ol.ber.get_ber()\<close> returns comes from the hardware and is
  given with the step that reads it.
\<close>

datatype hw_cmd =
    Set_ldpc_code string
  | Set_signal_length
  | Set_snr real
  | Set_scaling
  | Set_ber_length
  | Rng_start
  | Get_ber real
  | Ber_reset

text \<open>
  Where the main thread stands: before the loop, at the test \<open>if intr_flag == 1\<close>, at
  the assignment \<open>intr_flag = 0\<close>, or at the statements after it that process the
  measurement. The thread runs until it breaks out of the loop or raises.
\<close>

datatype main_pc = At_start | At_test | At_clear | At_process

datatype thread_status = Running | Finished | Raised py_error

text \<open>
  Where the wrapper thread stands in \<open>_do\<close>: at the top of its loop, or waiting for the
  interrupt in \<open>future.result()\<close>.
\<close>

datatype wrapper_pc = At_do | At_wait

text \<open>
  The globals that \<open>main\<close> only reads: \<open>codes\<close>, \<open>SNRs\<close>, and \<open>set_ldpc_code\<close>,
  which writes registers of the cores and returns the name it displays, or raises.
\<close>

record main_config =
  codes :: "string list"
  SNRs :: "real list"
  set_ldpc_code :: "string \<Rightarrow> py_error + string"

text \<open>
  What the statements of \<open>main\<close> other than the test and the clearing of the flag
  read and write: the two progress bars, the local list \<open>BER\<close> (here \<open>BER_acc\<close>), the
  global \<open>BERs\<close> and the IP cores. None of these statements names \<open>intr_flag\<close> or a
  field of the wrapper.
\<close>

record main_vars =
  pc :: main_pc
  status :: thread_status
  codes_progress :: nat
  snr_progress :: nat
  BER_acc :: "real list"
  BERs :: "real list list"
  hw_log :: "hw_cmd list"

text \<open>
  The state of the program: the global flag, the wrapper's \<open>is_running\<close> and place,
  and the main thread.
\<close>

record program_state =
  intr_flag :: int
  is_running :: bool
  wpc :: wrapper_pc
  main_thread :: main_vars

text \<open>
  The callback: \<open>global intr_flag; intr_flag = 1\<close>.
\<close>

definition intr_handler :: "program_state \<Rightarrow> program_state" where
  "intr_handler s = s\<lparr>intr_flag := 1\<rparr>"

text \<open>
  The two steps of a round of \<open>Interrupt._do\<close>: \<open>self.is_running = True\<close> and the
  submission of \<open>_wait\<close>; then, when the interrupt arrives, \<open>_wait\<close> calls the callback
  and \<open>future.result()\<close> returns. An interrupt that finds no round waiting runs no
  callback.
\<close>

definition wrapper_do :: "program_state \<Rightarrow> program_state" where
  "wrapper_do s = (if wpc s = At_do then s\<lparr>is_running := True, wpc := At_wait\<rparr> else s)"

definition wrapper_wait :: "program_state \<Rightarrow> program_state" where
  "wrapper_wait s = (if wpc s = At_wait then (intr_handler s)\<lparr>wpc := At_do\<rparr> else s)"

text \<open>
  \<open>main\<close> before the loop: the first code is set, the cores are initialised with the
  first SNR, and the random number generator is started. \<open>codes[0]\<close> and \<open>SNRs[0]\<close>
  raise \<open>IndexError\<close> on an empty list.
\<close>

definition main_start :: "main_config \<Rightarrow> main_vars \<Rightarrow> main_vars" where
  "main_start cfg v =
     (case codes cfg of
        [] \<Rightarrow> v\<lparr>codes_progress := 0, status := Raised IndexError\<rparr>
      | code0 # _ \<Rightarrow>
          (case set_ldpc_code cfg code0 of
             Inl e \<Rightarrow> v\<lparr>codes_progress := 0, status := Raised e\<rparr>
           | Inr code_name \<Rightarrow>
               (let v1 = v\<lparr>codes_progress := 0, snr_progress := 0,
                             hw_log := hw_log v @ [Set_ldpc_code code0, Set_signal_length]\<rparr>
                in case SNRs cfg of
                     [] \<Rightarrow> v1\<lparr>status := Raised IndexError\<rparr>
                   | snr0 # _ \<Rightarrow>
                       v1\<lparr>BER_acc := [],
                          hw_log := hw_log v1 @ [Set_snr snr0, Set_scaling, Set_ber_length, Rng_start],
                          pc := At_test\<rparr>)))"

text \<open>
  The test of the loop, \<open>if intr_flag == 1\<close>, and the first statement of its body,
  \<open>intr_flag = 0\<close>, each a step of its own.
\<close>

definition main_test :: "program_state \<Rightarrow> program_state" where
  "main_test s =
     (if intr_flag s = 1 then s\<lparr>main_thread := (main_thread s)\<lparr>pc := At_clear\<rparr>\<rparr> else s)"

definition main_clear :: "program_state \<Rightarrow> program_state" where
  "main_clear s = s\<lparr>intr_flag := 0, main_thread := (main_thread s)\<lparr>pc := At_process\<rparr>\<rparr>"

text \<open>
  The end of the loop body: the next SNR is set and the next signal is started.
\<close>

definition next_snr :: "main_config \<Rightarrow> main_vars \<Rightarrow> main_vars" where
  "next_snr cfg v =
     (if snr_progress v < length (SNRs cfg)
      then v\<lparr>hw_log := hw_log v @ [Set_snr (SNRs cfg ! snr_progress v), Set_scaling,
                                      Set_ber_length, Rng_start],
             pc := At_test\<rparr>
      else v\<lparr>status := Raised IndexError\<rparr>)"

text \<open>
  The branch taken when the last SNR of a code has been measured: the list of the code
  is appended to \<open>BERs\<close>; after the last code the loop breaks, otherwise the next code
  is set and a new progress bar starts at 0. A progress bar keeps its value at most its
  maximum.
\<close>

definition loop_over_codes :: "main_config \<Rightarrow> main_vars \<Rightarrow> main_vars" where
  "loop_over_codes cfg v3 =
     (let v4 = v3\<lparr>BERs := BERs v3 @ [BER_acc v3], BER_acc := []\<rparr>
      in if int (codes_progress v4) = int (length (codes cfg)) - 1 then
           v4\<lparr>codes_progress := min (codes_progress v4 + 1) (length (codes cfg)),
              status := Finished\<rparr>
         else
           (let v5 = v4\<lparr>codes_progress := min (codes_progress v4 + 1) (length (codes cfg))\<rparr>
            in if codes_progress v5 < length (codes cfg) then
                 (case set_ldpc_code cfg (codes cfg ! codes_progress v5) of
                    Inl e \<Rightarrow> v5\<lparr>status := Raised e\<rparr>
                  | Inr code_name \<Rightarrow>
                      v5\<lparr>snr_progress := 0,
                         hw_log := hw_log v5 @ [Set_ldpc_code (codes cfg ! codes_progress v5),
                                                Set_signal_length]\<rparr>)
               else v5\<lparr>status := Raised IndexError\<rparr>))"

text \<open>
  The rest of the loop body, after \<open>intr_flag = 0\<close>: the measurement is read, appended
  and the BER core reset, the SNR progress advances, and the loops over SNRs and codes
  follow.
\<close>

definition main_process :: "main_config \<Rightarrow> real \<Rightarrow> main_vars \<Rightarrow> main_vars" where
  "main_process cfg ber v1 =
     (let v2 = v1\<lparr>BER_acc := BER_acc v1 @ [ber], hw_log := hw_log v1 @ [Get_ber ber, Ber_reset]\<rparr>;
          v3 = v2\<lparr>snr_progress := min (snr_progress v2 + 1) (length (SNRs cfg))\<rparr>;
          v6 = (if snr_progress v3 = length (SNRs cfg) then loop_over_codes cfg v3 else v3)
      in if status v6 = Running then next_snr cfg v6 else v6)"

text \<open>
  A step of the program: the wrapper starts a round, the interrupt arrives, or the main
  thread makes its next step (the start, the test, the clearing of the flag, or the
  processing of the measurement).
\<close>

datatype event = Wrapper_poll | Interrupt | Main_step real

definition step :: "main_config \<Rightarrow> program_state \<Rightarrow> event \<Rightarrow> program_state" where
  "step cfg s ev =
     (case ev of
        Wrapper_poll \<Rightarrow> wrapper_do s
      | Interrupt \<Rightarrow> wrapper_wait s
      | Main_step ber \<Rightarrow>
          (if status (main_thread s) \<noteq> Running then s
           else (case pc (main_thread s) of
                   At_start \<Rightarrow> s\<lparr>main_thread := main_start cfg (main_thread s)\<rparr>
                 | At_test \<Rightarrow> main_test s
                 | At_clear \<Rightarrow> main_clear s
                 | At_process \<Rightarrow> s\<lparr>main_thread := main_process cfg ber (main_thread s)\<rparr>)))"

definition run :: "main_config \<Rightarrow> program_state \<Rightarrow> event list \<Rightarrow> program_state" where
  "run cfg s evs = foldl (step cfg) s evs"

text \<open>
  The cell that starts the threads sets \<open>intr_flag = 0\<close> and \<open>BERs = []\<close> first.
\<close>

definition init_state :: program_state where
  "init_state =
     \<lparr>intr_flag = 0, is_running = False, wpc = At_do,
      main_thread = \<lparr>pc = At_start, status = Running, codes_progress = 0, snr_progress = 0,
                     BER_acc = [], BERs = [], hw_log = []\<rparr>\<rparr>"

text \<open>
  The measurements processed so far are the calls of \<open>ol.ber.get_ber()\<close> in the log.
  The main thread is clearing when it stands at \<open>intr_flag = 0\<close>, and processing when
  it stands behind it.
\<close>

fun is_get_ber :: "hw_cmd \<Rightarrow> bool" where
  "is_get_ber (Get_ber ber) = True"
| "is_get_ber _ = False"

definition processed :: "program_state \<Rightarrow> nat" where
  "processed s = length (filter is_get_ber (hw_log (main_thread s)))"

definition processing :: "program_state \<Rightarrow> bool" where
  "processing s \<longleftrightarrow> status (main_thread s) = Running \<and> pc (main_thread s) = At_process"

definition clearing :: "program_state \<Rightarrow> bool" where
  "clearing s \<longleftrightarrow> status (main_thread s) = Running \<and> pc (main_thread s) = At_clear"

text \<open>
  An observer of an execution. It sees each step with the state before and after and
  remembers two things: whether the interrupt path has set the flag since the main loop
  last cleared it, and whether the main loop has cleared the flag since it last
  processed a measurement. It refuses (\<open>None\<close>) a step that processes a measurement
  when it is not a step of the main thread, when the flag was not cleared before, or
  when it also changes the flag; and a step that changes the flag when it is neither
  the interrupt path setting it to 1 nor the main thread setting it to 0 after the
  interrupt path had set it.
\<close>

fun is_main_step :: "event \<Rightarrow> bool" where
  "is_main_step (Main_step ber) = True"
| "is_main_step _ = False"

definition observe ::
  "program_state \<Rightarrow> event \<Rightarrow> program_state \<Rightarrow> bool \<times> bool \<Rightarrow> (bool \<times> bool) option" where
  "observe s ev s' m =
     (case m of (flag_set, flag_cleared) \<Rightarrow>
        if processed s' \<noteq> processed s then
          (if is_main_step ev \<and> flag_cleared \<and> intr_flag s' = intr_flag s
           then Some (flag_set, False) else None)
        else if intr_flag s' \<noteq> intr_flag s then
          (if ev = Interrupt \<and> intr_flag s' = 1 then Some (True, flag_cleared)
           else if is_main_step ev \<and> flag_set \<and> intr_flag s' = 0 then Some (False, True)
           else None)
        else Some (flag_set, flag_cleared))"

fun watch ::
  "main_config \<Rightarrow> program_state \<Rightarrow> bool \<times> bool \<Rightarrow> event list \<Rightarrow> (bool \<times> bool) option" where
  "watch cfg s m [] = Some m"
| "watch cfg s m (ev # evs) =
     (case observe s ev (step cfg s ev) m of
        None \<Rightarrow> None
      | Some m' \<Rightarrow> watch cfg (step cfg s ev) m' evs)"

text \<open>
  An example: one code, two SNR values.
\<close>

definition cfg0 :: main_config where
  "cfg0 = \<lparr>codes = [''docsis_short''], SNRs = [2, 1], set_ldpc_code = (\<lambda>c. Inr c)\<rparr>"

text \<open>
  What links the observer to the state, and what bounds the measurements: the observer
  has seen the flag set exactly when it is 1, and cleared exactly while the main thread
  is processing; the main thread is clearing only while the flag is 1; and the
  measurements processed, plus one while processing and one while the flag is set, are
  at most the interrupts so far.
\<close>

definition watch_inv :: "program_state \<Rightarrow> bool \<times> bool \<Rightarrow> bool" where
  "watch_inv s m \<longleftrightarrow>
     m = (intr_flag s = 1, processing s) \<and> (clearing s \<longrightarrow> intr_flag s = 1)"

definition flag_inv :: "event list \<Rightarrow> program_state \<Rightarrow> bool" where
  "flag_inv evs s \<longleftrightarrow>
     (intr_flag s = 0 \<or> intr_flag s = 1)
     \<and> (clearing s \<longrightarrow> intr_flag s = 1)
     \<and> processed s + (if processing s then 1 else 0) + (if intr_flag s = 1 then 1 else 0)
          \<le> count_list evs Interrupt"

section \<open>Properties of the LLR formatting\<close>

lemma np_round_cases:
  "np_round x = of_int \<lfloor>x\<rfloor> \<or> (np_round x = of_int (\<lfloor>x\<rfloor> + 1) \<and> of_int \<lfloor>x\<rfloor> < x)"
  unfolding np_round_def Let_def by auto

lemma py_int_of_int: "py_int (of_int k) = k"
  unfolding py_int_def by simp

lemma np_round_near: "\<bar>np_round x - x\<bar> \<le> 1 / 2"
  unfolding np_round_def Let_def by (auto simp: abs_if) linarith+

lemma saturate_range: "- 7.75 \<le> saturate x \<and> saturate x \<le> 7.75"
  unfolding saturate_def by auto

lemma saturate_clamp: "saturate x = max (- 7.75) (min 7.75 x)"
  unfolding saturate_def by auto

lemma quantise_np_round: "real_of_int (quantise x) = np_round (x * 2 ^ 2)"
  using np_round_cases [of "x * 2 ^ 2"] unfolding quantise_def
  by (metis py_int_of_int)

lemma quantise_range:
  assumes "- 7.75 \<le> x" "x \<le> 7.75"
  shows "- 31 \<le> quantise x \<and> quantise x \<le> 31"
proof -
  let ?y = "x * 2 ^ 2"
  have y: "- 31 \<le> ?y" "?y \<le> 31" using assms by simp_all
  have lo: "- 31 \<le> \<lfloor>?y\<rfloor>" using y(1) by (simp add: le_floor_iff)
  have hi: "\<lfloor>?y\<rfloor> \<le> 31" using y(2) by (simp add: floor_le_iff)
  consider (down) "np_round ?y = of_int \<lfloor>?y\<rfloor>"
    | (up) "np_round ?y = of_int (\<lfloor>?y\<rfloor> + 1)" "of_int \<lfloor>?y\<rfloor> < ?y"
    using np_round_cases [of ?y] by blast
  then show ?thesis
  proof cases
    case down
    then have "quantise x = \<lfloor>?y\<rfloor>"
      unfolding quantise_def by (simp only: py_int_of_int)
    then show ?thesis using lo hi by simp
  next
    case up
    then have q: "quantise x = \<lfloor>?y\<rfloor> + 1"
      unfolding quantise_def by (simp only: py_int_of_int)
    have "real_of_int \<lfloor>?y\<rfloor> < 31" using up(2) y(2) by linarith
    then have "\<lfloor>?y\<rfloor> < 31" by linarith
    then show ?thesis using lo q by linarith
  qed
qed

lemma quantise_saturate_range:
  "- 31 \<le> quantise (saturate x)" "quantise (saturate x) \<le> 31"
  using quantise_range [of "saturate x"] saturate_range [of x] by simp_all

text \<open>
  Stages 2 and 3 on each of the 63 levels that the quantiser can produce: the string
  is parsed back to the level modulo 256.
\<close>

lemma encode_levels:
  "\<forall>q \<in> {- 31..31}.
     (case sign_extend (to_binary q) of
        Inl e \<Rightarrow> Inl e
      | Inr binary_extended \<Rightarrow> py_int_base2 binary_extended) = Inr (q mod 256)"
  by code_simp

lemma format_llr_level: "format_llr x = Inr (quantise (saturate x) mod 256)"
  unfolding format_llr_def
  using encode_levels quantise_saturate_range [of x] by simp

lemma interpret_small:
  assumes "- 128 \<le> q" "q < 128"
  shows "interpret_llr (q mod 256) = real_of_int q / 4"
proof -
  have "(word_of_int (q mod 256) :: 8 word) = word_of_int q"
    by (simp add: word_of_int_eq_iff take_bit_eq_mod)
  moreover have "sint (word_of_int q :: 8 word) = q"
    using assms by (simp add: sint_sbintrunc' signed_take_bit_int_eq_self)
  ultimately show ?thesis unfolding interpret_llr_def by simp
qed

lemma sign_extend_small:
  assumes "- 32 \<le> q" "q < 32"
  shows "sign_extend_6_to_8 q = q mod 256"
proof -
  have "signed_take_bit 5 (take_bit 6 q) = signed_take_bit 5 q"
    by (simp add: signed_take_bit_take_bit)
  also have "\<dots> = q" using assms by (simp add: signed_take_bit_int_eq_self)
  finally show ?thesis unfolding sign_extend_6_to_8_def by (simp add: take_bit_eq_mod)
qed

text \<open>
  C1. For every real input, \<open>format_llr\<close> returns the byte \<open>v = q mod 256\<close>, where
  \<open>q\<close> is \<open>np.round\<close> of four times the input saturated to the range from -7.75 to
  7.75. The level \<open>q\<close> lies between -31 and 31, the byte is the 8-bit sign extension
  of the 6-bit two's-complement code of \<open>q\<close>, and read as an 8-bit two's-complement
  number with two fractional bits it is \<open>q / 4\<close>: a multiple of 0.25 within 0.125 of
  the saturated input, and never as low as -8.
\<close>

theorem format_llr_value:
  "let q = quantise (saturate llr); v = q mod 256 in
     format_llr llr = Inr v
     \<and> saturate llr = max (- 7.75) (min 7.75 llr)
     \<and> real_of_int q = np_round (saturate llr * 2 ^ 2)
     \<and> - 31 \<le> q \<and> q \<le> 31
     \<and> v = sign_extend_6_to_8 q
     \<and> interpret_llr v = real_of_int q / 4
     \<and> \<bar>interpret_llr v - saturate llr\<bar> \<le> 1 / 8
     \<and> - 8 < interpret_llr v"
proof -
  define q where "q = quantise (saturate llr)"
  have r: "- 31 \<le> q" "q \<le> 31"
    unfolding q_def by (rule quantise_saturate_range)+
  have f: "format_llr llr = Inr (q mod 256)"
    unfolding q_def by (rule format_llr_level)
  have i: "interpret_llr (q mod 256) = real_of_int q / 4"
    using r by (intro interpret_small) simp_all
  have s: "q mod 256 = sign_extend_6_to_8 q"
    using r by (simp add: sign_extend_small)
  have n: "real_of_int q = np_round (saturate llr * 2 ^ 2)"
    unfolding q_def by (rule quantise_np_round)
  have "\<bar>np_round (saturate llr * 2 ^ 2) - saturate llr * 2 ^ 2\<bar> \<le> 1 / 2"
    by (rule np_round_near)
  then have d: "\<bar>interpret_llr (q mod 256) - saturate llr\<bar> \<le> 1 / 8"
    unfolding i n [symmetric] by (simp add: abs_if split: if_splits)
  have l: "- 8 < interpret_llr (q mod 256)"
    unfolding i using r by simp
  show ?thesis
    unfolding Let_def q_def [symmetric]
    using f saturate_clamp n r s i d l by blast
qed

text \<open>
  The theorem at the sample -9.3, which takes the lower saturation branch, the negative
  branch of the two's-complement conversion and the \<open>11\<close> branch of the sign
  extension: the byte is 225, read as -7.75.
\<close>

theorem format_llr_value_witness:
  "format_llr (- 9.3) = Inr 225 \<and> quantise (saturate (- 9.3)) = - 31
   \<and> interpret_llr 225 = - 7.75"
proof -
  have q: "quantise (saturate (- 9.3)) = - 31"
    by (simp add: saturate_def quantise_def np_round_def py_int_def)
  show ?thesis
    using format_llr_value [of "- 9.3"] unfolding Let_def q by simp
qed

text \<open>
  C6. \<open>format_llr\<close> is total: for every real input it returns normally, whichever
  branches it takes, and the integer it returns lies between 0 and 255.
\<close>

theorem format_llr_total:
  "\<exists>v. format_llr llr = Inr v \<and> 0 \<le> v \<and> v \<le> 255"
proof -
  define q where "q = quantise (saturate llr)"
  have f: "format_llr llr = Inr (q mod 256)"
    unfolding q_def by (rule format_llr_level)
  have "0 \<le> q mod 256" "q mod 256 \<le> 255" by simp_all
  with f show ?thesis by blast
qed

text \<open>
  Three samples: 9 is saturated from above, -0.6 takes the negative branch of the
  conversion and the \<open>11\<close> branch of the sign extension, and 0.125 is a tie that
  rounds to the even level 0.
\<close>

theorem format_llr_total_witness:
  "format_llr 9 = Inr 31 \<and> format_llr (- 0.6) = Inr 254 \<and> format_llr 0.125 = Inr 0
   \<and> to_binary (- 2) = ''111110'' \<and> sign_extend ''111110'' = Inr ''11111110''
   \<and> py_int_base2 ''11111110'' = Inr 254"
proof -
  have q: "quantise (saturate 9) = 31" "quantise (saturate (- 0.6)) = - 2"
    "quantise (saturate 0.125) = 0"
    by (simp_all add: saturate_def quantise_def np_round_def py_int_def)
  have s: "to_binary (- 2) = ''111110''" "sign_extend ''111110'' = Inr ''11111110''"
    "py_int_base2 ''11111110'' = Inr 254"
    by code_simp+
  have e: "(case sign_extend (to_binary 31) of Inl e \<Rightarrow> Inl e | Inr b \<Rightarrow> py_int_base2 b) = Inr 31"
    "(case sign_extend (to_binary (- 2)) of Inl e \<Rightarrow> Inl e | Inr b \<Rightarrow> py_int_base2 b) = Inr 254"
    "(case sign_extend (to_binary 0) of Inl e \<Rightarrow> Inl e | Inr b \<Rightarrow> py_int_base2 b) = Inr 0"
    by code_simp+
  have f: "format_llr 9 = Inr 31" "format_llr (- 0.6) = Inr 254" "format_llr 0.125 = Inr 0"
    unfolding format_llr_def q by (rule e)+
  obtain a where a: "format_llr 9 = Inr a" "0 \<le> a" "a \<le> 255"
    using format_llr_total [of 9] by blast
  with f s show ?thesis by simp
qed

section \<open>Properties of the control words\<close>

lemma extract_field_div_mod:
  "extract_field hi lo w = (w div 2 ^ lo) mod 2 ^ (Suc hi - lo)"
proof -
  have "drop_bit lo (w AND push_bit lo (mask (Suc hi - lo))) =
        drop_bit lo w AND mask (Suc hi - lo)"
    by (simp add: drop_bit_and drop_bit_push_bit)
  then show ?thesis
    unfolding extract_field_def field_mask_def
    by (simp add: take_bit_eq_mod drop_bit_eq_div flip: take_bit_eq_mask)
qed

lemma ctrl_word_low:
  fixes b c :: int
  assumes "0 \<le> c" "c \<le> 127"
  shows "(b * 16777216 + c) mod 128 = c" "(b * 16777216 + c) div 128 = b * 131072"
proof -
  have e: "b * 16777216 + c = c + (b * 131072) * 128"
    by (simp add: algebra_simps)
  show "(b * 16777216 + c) mod 128 = c"
    unfolding e mod_mult_self1 using assms by simp
  show "(b * 16777216 + c) div 128 = b * 131072"
    unfolding e using assms by simp
qed

text \<open>
  C2. For a block ID from 0 to 255 and a code ID from 0 to 127, the encoder control
  word \<open>(block_id << 24) + (code_id << 0)\<close> holds the two fields apart: masking and
  shifting bits 31:24 gives back the block ID, bits 6:0 give back the code ID, and
  bits 23:7 are zero.
\<close>

theorem ctrl_word_fields:
  assumes "0 \<le> block_id" "block_id \<le> 255" "0 \<le> code_id" "code_id \<le> 127"
  shows "extract_field 31 24 (ctrl_word block_id code_id) = block_id
       \<and> extract_field 6 0 (ctrl_word block_id code_id) = code_id
       \<and> extract_field 23 7 (ctrl_word block_id code_id) = 0"
proof -
  have w: "ctrl_word block_id code_id = block_id * 16777216 + code_id"
    unfolding ctrl_word_def by (simp add: push_bit_eq_mult)
  have hi: "extract_field 31 24 (ctrl_word block_id code_id) = block_id"
    unfolding extract_field_div_mod w using assms by simp
  have lo: "extract_field 6 0 (ctrl_word block_id code_id) = code_id"
    unfolding extract_field_div_mod w using ctrl_word_low(1) [OF assms(3,4)] by simp
  have mid: "extract_field 23 7 (ctrl_word block_id code_id) = 0"
    unfolding extract_field_div_mod w using ctrl_word_low(2) [OF assms(3,4)] by simp
  from hi lo mid show ?thesis by simp
qed

text \<open>The control word of the notebook: block ID 127 and code ID 1.\<close>

theorem ctrl_word_fields_witness:
  "ctrl_word 127 1 = 2130706433
   \<and> extract_field 31 24 (ctrl_word 127 1) = 127
   \<and> extract_field 6 0 (ctrl_word 127 1) = 1
   \<and> extract_field 23 7 (ctrl_word 127 1) = 0"
proof -
  have "ctrl_word 127 1 = 2130706433"
    by (simp add: ctrl_word_def)
  then show ?thesis
    using ctrl_word_fields [of 127 1] by simp
qed

text \<open>
  C3. For every field dictionary whose values lie in the documented ranges (block ID 0
  to 255, maximum iterations 1 to 63, the four flags 0 or 1, code ID 0 to 127), the
  control word assembled by shift-and-add is not negative and below \<open>2 ^ 32\<close>, so the
  \<open>uint32\<close> element of the control buffer holds it unchanged.
\<close>

theorem create_ctrl_word_fits:
  assumes "0 \<le> field_or_zero params ''id''" "field_or_zero params ''id'' \<le> 255"
    and "1 \<le> field_or_zero params ''max_iterations''"
        "field_or_zero params ''max_iterations'' \<le> 63"
    and "0 \<le> field_or_zero params ''term_on_no_change''"
        "field_or_zero params ''term_on_no_change'' \<le> 1"
    and "0 \<le> field_or_zero params ''term_on_pass''"
        "field_or_zero params ''term_on_pass'' \<le> 1"
    and "0 \<le> field_or_zero params ''include_parity_op''"
        "field_or_zero params ''include_parity_op'' \<le> 1"
    and "0 \<le> field_or_zero params ''hard_op''"
        "field_or_zero params ''hard_op'' \<le> 1"
    and "0 \<le> field_or_zero params ''code_id''"
        "field_or_zero params ''code_id'' \<le> 127"
  shows "0 \<le> create_ctrl_word params \<and> create_ctrl_word params < 2 ^ 32
       \<and> uint (store_uint32 (create_ctrl_word params)) = create_ctrl_word params"
proof -
  have lo: "0 \<le> create_ctrl_word params"
    unfolding create_ctrl_word_def push_bit_eq_mult using assms by simp
  have hi: "create_ctrl_word params < 2 ^ 32"
    unfolding create_ctrl_word_def push_bit_eq_mult using assms by simp
  have "uint (store_uint32 (create_ctrl_word params)) = create_ctrl_word params"
    unfolding store_uint32_def using lo hi
    by (simp add: uint_word_of_int take_bit_int_eq_self flip: take_bit_eq_mod)
  with lo hi show ?thesis by simp
qed

text \<open>The dictionary of notebook H/04 with code ID 1: the word is 33505281.\<close>

theorem create_ctrl_word_fits_witness:
  "create_ctrl_word (ctrl_params_H04 1) = 33505281
   \<and> uint (store_uint32 (create_ctrl_word (ctrl_params_H04 1))) = 33505281"
proof -
  have f: "field_or_zero (ctrl_params_H04 1) ''id'' = 1"
    "field_or_zero (ctrl_params_H04 1) ''max_iterations'' = 63"
    "field_or_zero (ctrl_params_H04 1) ''term_on_no_change'' = 1"
    "field_or_zero (ctrl_params_H04 1) ''term_on_pass'' = 1"
    "field_or_zero (ctrl_params_H04 1) ''include_parity_op'' = 0"
    "field_or_zero (ctrl_params_H04 1) ''hard_op'' = 1"
    "field_or_zero (ctrl_params_H04 1) ''code_id'' = 1"
    by (simp_all add: ctrl_params_H04_def field_or_zero_def)
  have w: "create_ctrl_word (ctrl_params_H04 1) = 33505281"
    unfolding create_ctrl_word_def f by simp
  show ?thesis
    using create_ctrl_word_fits [of "ctrl_params_H04 1"] unfolding f w by simp
qed

section \<open>Properties of the clock setup\<close>

text \<open>
  C4. The clock setup raises \<open>RuntimeError('Platform not supported.')\<close> exactly when
  the board is none of ZCU111, RFSoC2x2 and RFSoC4x2, and then makes no call of
  \<open>set_ref_clks\<close>; otherwise it raises nothing and makes exactly one call, with LMX
  frequency 409.6 and LMK frequency 122.88 for ZCU111 and RFSoC2x2, 245.76 for RFSoC4x2.
\<close>

theorem clock_setup_platform:
  "(fst (clock_setup board calls) = Some (RuntimeError ''Platform not supported.'')
      \<longleftrightarrow> board \<notin> {''ZCU111'', ''RFSoC2x2'', ''RFSoC4x2''})
   \<and> (fst (clock_setup board calls) = None
      \<longleftrightarrow> board \<in> {''ZCU111'', ''RFSoC2x2'', ''RFSoC4x2''})
   \<and> (board \<notin> {''ZCU111'', ''RFSoC2x2'', ''RFSoC4x2''}
      \<longrightarrow> snd (clock_setup board calls) = calls)
   \<and> (board \<in> {''ZCU111'', ''RFSoC2x2''}
      \<longrightarrow> snd (clock_setup board calls) = calls @ [(122.88, 409.6)])
   \<and> (board = ''RFSoC4x2''
      \<longrightarrow> snd (clock_setup board calls) = calls @ [(245.76, 409.6)])"
  unfolding clock_setup_def select_lmk_freq_def set_ref_clks_def
  by (simp split: sum.splits)

theorem clock_setup_platform_witness:
  "clock_setup ''ZCU111'' [] = (None, [(122.88, 409.6)])
   \<and> clock_setup ''RFSoC2x2'' [] = (None, [(122.88, 409.6)])
   \<and> clock_setup ''RFSoC4x2'' [] = (None, [(245.76, 409.6)])
   \<and> clock_setup ''ZCU208'' [] = (Some (RuntimeError ''Platform not supported.''), [])"
  using clock_setup_platform [of "''ZCU111''" "[]"]
    clock_setup_platform [of "''RFSoC2x2''" "[]"]
    clock_setup_platform [of "''RFSoC4x2''" "[]"]
    clock_setup_platform [of "''ZCU208''" "[]"]
  by (simp add: prod_eq_iff)

section \<open>Properties of the data buffers\<close>

lemma length_allocate: "length (allocate mem shape) = shape"
  unfolding allocate_def by simp

lemma ceil_bytes: "nat (py_int (np_ceil (real k / 8))) = nat \<lceil>real k / 8\<rceil>"
  unfolding np_ceil_def by (simp only: py_int_of_int)

lemma ceil_bytes_div: "nat \<lceil>real k / 8\<rceil> = (k + 7) div 8"
proof -
  have "\<lceil>real k / 8\<rceil> = \<lceil>real_of_int (int k) / real_of_int 8\<rceil>" by simp
  also have "\<dots> = - ((- int k) div 8)"
    unfolding ceiling_divide_eq_div by simp
  finally show ?thesis by linarith
qed

lemma py_index_member: "x \<in> set xs \<Longrightarrow> \<exists>i. py_index xs x = Inr i \<and> i < length xs \<and> xs ! i = x"
  by (induction xs) auto

lemma copy_llrs_length:
  "copy_llrs idx src (buf, j) = Inr (buf', j') \<Longrightarrow> length buf' = length buf"
  by (induction idx arbitrary: buf j) (auto split: if_splits)

lemma copy_llrs_ok:
  "j + length idx \<le> length src \<Longrightarrow> \<exists>buf' j'. copy_llrs idx src (buf, j) = Inr (buf', j')"
  by (induction idx arbitrary: buf j) auto


lemma get_data_buffers_sizes:
  assumes "fst (select_code code_name0 st) \<in> set (dec_ldpc_params env)"
    and "ldpc env (fst (select_code code_name0 st)) = Some c"
  shows "\<exists>bufs st'. get_data_buffers env mem st code_name0 = Inr (bufs, st')
           \<and> length (dec_tx_buf bufs) = code_n c
           \<and> length (dec_rx_buf bufs) = nat \<lceil>real (code_k c) / 8\<rceil>
           \<and> length (enc_tx_buf bufs) = nat \<lceil>real (code_k c) / 8\<rceil>
           \<and> length (enc_rx_buf bufs) = nat \<lceil>real (code_n c) / 8\<rceil>
           \<and> block_n bufs = code_n c"
proof -
  obtain code_name st1 where sc: "select_code code_name0 st = (code_name, st1)"
    by (cases "select_code code_name0 st")
  with assms have m: "code_name \<in> set (dec_ldpc_params env)" and l: "ldpc env code_name = Some c"
    by simp_all
  obtain i where i: "py_index (dec_ldpc_params env) code_name = Inr i"
    using py_index_member [OF m] by blast
  show ?thesis
    unfolding get_data_buffers_def sc
    by (simp add: i l Let_def length_allocate ceil_bytes)
qed

lemma decoder_buffers_sizes:
  "(length llrs_formatted \<ge> n \<longrightarrow> (\<exists>tx rx. decoder_buffers mem n k llrs_formatted = Inr (tx, rx)))
   \<and> (\<forall>tx rx. decoder_buffers mem n k llrs_formatted = Inr (tx, rx)
         \<longrightarrow> length tx = n \<and> length rx = nat \<lceil>real k / 8\<rceil>)"
proof (intro conjI impI allI)
  assume "n \<le> length llrs_formatted"
  then obtain buf' j' where
    "copy_llrs [0..<length (allocate mem n)] llrs_formatted (allocate mem n, 0) = Inr (buf', j')"
    using copy_llrs_ok [of 0 "[0..<length (allocate mem n)]" llrs_formatted "allocate mem n"]
    by (auto simp: length_allocate)
  then show "\<exists>tx rx. decoder_buffers mem n k llrs_formatted = Inr (tx, rx)"
    unfolding decoder_buffers_def Let_def by simp
next
  fix tx rx
  assume a: "decoder_buffers mem n k llrs_formatted = Inr (tx, rx)"
  then obtain j where
    c: "copy_llrs [0..<length (allocate mem n)] llrs_formatted (allocate mem n, 0) = Inr (tx, j)"
    and r: "rx = allocate mem (nat (py_int (np_ceil (real k / 8))))"
    unfolding decoder_buffers_def Let_def by (auto split: sum.splits)
  show "length tx = n" using copy_llrs_length [OF c] by (simp add: length_allocate)
  show "length rx = nat \<lceil>real k / 8\<rceil>" unfolding r by (simp add: length_allocate ceil_bytes)
qed

lemma encoder_buffers_sizes:
  "length (fst (encoder_buffers mem randint n k)) = nat \<lceil>real k / 8\<rceil>
   \<and> length (snd (encoder_buffers mem randint n k)) = nat \<lceil>real n / 8\<rceil>"
  unfolding encoder_buffers_def Let_def by (simp add: length_allocate ceil_bytes)

lemma copy_llrs_result:
  "i \<le> length buf \<Longrightarrow> length buf \<le> length src \<Longrightarrow>
   copy_llrs [i..<length buf] src (buf, i)
     = Inr (take i buf @ map word_of_int (drop i (take (length buf) src)), length buf)"
proof (induction "length buf - i" arbitrary: i buf)
  case 0
  then show ?case by simp
next
  case (Suc d)
  then have i: "i < length buf" "i < length src" by simp_all
  let ?buf = "buf[i := word_of_int (src ! i)]"
  have d: "d = length ?buf - Suc i" using Suc.hyps(2) by simp
  have ih: "copy_llrs [Suc i..<length ?buf] src (?buf, Suc i)
     = Inr (take (Suc i) ?buf @ map word_of_int (drop (Suc i) (take (length ?buf) src)), length ?buf)"
    using Suc.hyps(1) [OF d] i Suc.prems by simp
  have t: "take (Suc i) ?buf = take i buf @ [word_of_int (src ! i)]"
    using i by (simp add: take_Suc_conv_app_nth)
  have "i < length (take (length buf) src)" using i by simp
  then have dr: "drop i (take (length buf) src)
      = take (length buf) src ! i # drop (Suc i) (take (length buf) src)"
    by (rule Cons_nth_drop_Suc [symmetric])
  have "copy_llrs [i..<length buf] src (buf, i) = copy_llrs [Suc i..<length buf] src (?buf, Suc i)"
    using i by (simp add: upt_conv_Cons)
  then show ?case using ih t dr i by simp
qed

lemma decoder_buffers_content:
  assumes "n \<le> length llrs_formatted"
  shows "decoder_buffers mem n k llrs_formatted
     = Inr (map word_of_int (take n llrs_formatted), allocate mem (nat \<lceil>real k / 8\<rceil>))"
  using copy_llrs_result [of 0 "allocate mem n" llrs_formatted] assms
  unfolding decoder_buffers_def Let_def
  by (simp add: length_allocate ceil_bytes)

text \<open>
  C5. The buffers handed to the DMA transfers have sizes fixed by the code alone. For a
  code with block length \<open>n\<close> and \<open>k\<close> information bits that the decoder lists,
  \<open>get_data_buffers\<close> returns a decoder transmit buffer of \<open>n\<close> bytes, a decoder
  receive buffer of \<open>ceil(k/8)\<close> bytes, an encoder transmit buffer of \<open>ceil(k/8)\<close>
  bytes and an encoder receive buffer of \<open>ceil(n/8)\<close> bytes; the cells of notebooks
  H/04 and H/02 allocate the same sizes, and the decoder transmit buffer of H/04 holds
  the first \<open>n\<close> formatted LLRs, one per byte.
\<close>

theorem dma_buffer_sizes:
  assumes "fst (select_code code_name0 st) \<in> set (dec_ldpc_params env)"
    and "ldpc env (fst (select_code code_name0 st)) = Some c"
    and "code_n c \<le> length llrs_formatted"
  shows "(\<exists>bufs st'. get_data_buffers env mem st code_name0 = Inr (bufs, st')
           \<and> length (dec_tx_buf bufs) = code_n c
           \<and> length (dec_rx_buf bufs) = nat \<lceil>real (code_k c) / 8\<rceil>
           \<and> length (enc_tx_buf bufs) = nat \<lceil>real (code_k c) / 8\<rceil>
           \<and> length (enc_rx_buf bufs) = nat \<lceil>real (code_n c) / 8\<rceil>)
       \<and> (\<exists>tx_dec_buf rx_dec_buf.
             decoder_buffers mem (code_n c) (code_k c) llrs_formatted = Inr (tx_dec_buf, rx_dec_buf)
             \<and> length tx_dec_buf = code_n c
             \<and> tx_dec_buf = map word_of_int (take (code_n c) llrs_formatted)
             \<and> length rx_dec_buf = nat \<lceil>real (code_k c) / 8\<rceil>)
       \<and> length (fst (encoder_buffers mem randint (code_n c) (code_k c)))
             = nat \<lceil>real (code_k c) / 8\<rceil>
       \<and> length (snd (encoder_buffers mem randint (code_n c) (code_k c)))
             = nat \<lceil>real (code_n c) / 8\<rceil>
       \<and> nat \<lceil>real (code_k c) / 8\<rceil> = (code_k c + 7) div 8
       \<and> nat \<lceil>real (code_n c) / 8\<rceil> = (code_n c + 7) div 8"
proof -
  have g: "\<exists>bufs st'. get_data_buffers env mem st code_name0 = Inr (bufs, st')
           \<and> length (dec_tx_buf bufs) = code_n c
           \<and> length (dec_rx_buf bufs) = nat \<lceil>real (code_k c) / 8\<rceil>
           \<and> length (enc_tx_buf bufs) = nat \<lceil>real (code_k c) / 8\<rceil>
           \<and> length (enc_rx_buf bufs) = nat \<lceil>real (code_n c) / 8\<rceil>"
    using get_data_buffers_sizes [OF assms(1,2)] by blast
  have d: "\<exists>tx_dec_buf rx_dec_buf.
             decoder_buffers mem (code_n c) (code_k c) llrs_formatted = Inr (tx_dec_buf, rx_dec_buf)
             \<and> length tx_dec_buf = code_n c
             \<and> tx_dec_buf = map word_of_int (take (code_n c) llrs_formatted)
             \<and> length rx_dec_buf = nat \<lceil>real (code_k c) / 8\<rceil>"
    using decoder_buffers_content [OF assms(3), of mem "code_k c"] assms(3)
    by (simp add: length_allocate)
  show ?thesis
    using g d encoder_buffers_sizes [of mem randint "code_n c" "code_k c"]
      ceil_bytes_div [of "code_k c"] ceil_bytes_div [of "code_n c"]
    by blast
qed

text \<open>
  The uncoded run, which selects DOCSIS medium (\<open>n = 5940\<close>, \<open>k = 5040\<close>): 5940, 630,
  630 and 743 bytes.
\<close>

theorem dma_buffer_sizes_witness:
  "\<exists>bufs st'. get_data_buffers docsis_env (\<lambda>i. 0)
       \<lparr>enc_CORE_BYPASS = 0, dec_CORE_BYPASS = 0, enc_ctrl_buffer = 0, dec_ctrl_buffer = 0\<rparr>
       ''uncoded'' = Inr (bufs, st')
     \<and> length (dec_tx_buf bufs) = 5940 \<and> length (dec_rx_buf bufs) = 630
     \<and> length (enc_tx_buf bufs) = 630 \<and> length (enc_rx_buf bufs) = 743"
proof -
  let ?st = "\<lparr>enc_CORE_BYPASS = 0, dec_CORE_BYPASS = 0, enc_ctrl_buffer = 0, dec_ctrl_buffer = 0\<rparr>"
  let ?c = "\<lparr>code_n = 5940, code_k = 5040, code_p = 180\<rparr>"
  have s: "fst (select_code ''uncoded'' ?st) = ''docsis_medium''"
    by (simp add: select_code_def)
  have m: "fst (select_code ''uncoded'' ?st) \<in> set (dec_ldpc_params docsis_env)"
    unfolding s by (simp add: docsis_env_def)
  have l: "ldpc docsis_env (fst (select_code ''uncoded'' ?st)) = Some ?c"
    unfolding s by (simp add: docsis_env_def)
  have n: "code_n ?c \<le> length (replicate 5940 (0::int))"
    by (simp only: length_replicate ldpc_code.select_convs order_refl)
  have k: "code_n ?c = 5940" "code_k ?c = 5040"
    "nat \<lceil>real (5040::nat) / 8\<rceil> = 630" "nat \<lceil>real (5940::nat) / 8\<rceil> = 743"
    by simp_all
  note t = dma_buffer_sizes [OF m l n, of "\<lambda>i. 0" "\<lambda>i. 0", THEN conjunct1]
  show ?thesis
    using t unfolding k .
qed


section \<open>Properties of the truncated encoder output\<close>

lemma length_byte_bits: "length (byte_bits w) = 8"
  unfolding byte_bits_def by simp

lemma length_serialise: "length (serialise buf) = 8 * length buf"
  unfolding serialise_def by (induction buf) (simp_all add: length_byte_bits)

lemma take_serialise:
  "a < length buf \<Longrightarrow> b \<le> 8 \<Longrightarrow>
   take (8 * a + b) (serialise buf) = serialise (take a buf) @ take b (byte_bits (buf ! a))"
proof (induction buf arbitrary: a)
  case Nil
  then show ?case by simp
next
  case (Cons w buf)
  show ?case
  proof (cases a)
    case 0
    then show ?thesis using Cons.prems by (simp add: serialise_def length_byte_bits)
  next
    case (Suc a')
    then have "a' < length buf" using Cons.prems by simp
    from Cons.IH [OF this Cons.prems(2)] show ?thesis
      using Suc by (simp add: serialise_def length_byte_bits)
  qed
qed

lemma drop_serialise:
  "a < length buf \<Longrightarrow> b \<le> 8 \<Longrightarrow>
   drop (8 * a + b) (serialise buf) = drop b (byte_bits (buf ! a)) @ serialise (drop (Suc a) buf)"
proof (induction buf arbitrary: a)
  case Nil
  then show ?case by simp
next
  case (Cons w buf)
  show ?case
  proof (cases a)
    case 0
    then show ?thesis using Cons.prems by (simp add: serialise_def length_byte_bits)
  next
    case (Suc a')
    then have "a' < length buf" using Cons.prems by simp
    from Cons.IH [OF this Cons.prems(2)] show ?thesis
      using Suc by (simp add: serialise_def length_byte_bits)
  qed
qed

lemma take_byte_bits: "b \<le> 8 \<Longrightarrow> take b (byte_bits w) = map (bit w) [0..<b]"
  unfolding byte_bits_def by (simp add: take_map min_def)

lemma drop_byte_bits: "drop b (byte_bits w) = map (bit w) [b..<8]"
  unfolding byte_bits_def by (simp add: drop_map)


lemma get_data_buffers_enc_rx:
  assumes "get_data_buffers env mem st code_name0 = Inr (bufs, st')"
  shows "length (enc_rx_buf bufs) = nat \<lceil>real (block_n bufs) / 8\<rceil>"
  using assms unfolding get_data_buffers_def Let_def
  by (auto split: prod.splits sum.splits option.splits simp: length_allocate ceil_bytes)

lemma bytes_exact: "n mod 8 = 0 \<Longrightarrow> (n + 7) div 8 = n div (8::nat)"
proof -
  assume "n mod 8 = 0"
  then have "8 dvd n" by (simp add: dvd_eq_mod_eq_0)
  then obtain a where n: "n = 8 * a" ..
  show ?thesis unfolding n by simp
qed

lemma bytes_partial: "n mod 8 \<noteq> 0 \<Longrightarrow> (n + 7) div 8 = Suc (n div (8::nat))"
proof -
  assume h: "n mod 8 \<noteq> 0"
  define a where "a = n div 8"
  define b where "b = n mod 8"
  have n: "n = b + a * 8" unfolding a_def b_def by simp
  have b: "0 < b" "b < 8" using h unfolding b_def by simp_all
  have "(n + 7) div 8 = ((b + 7) + a * 8) div 8" unfolding n by (simp add: algebra_simps)
  also have "\<dots> = (b + 7) div 8 + a" by simp
  also have "(b + 7) div 8 = 1" using b by simp
  finally show ?thesis unfolding a_def by simp
qed

lemma last_nth_Suc: "length xs = Suc a \<Longrightarrow> last xs = xs ! a"
  by (cases xs rule: rev_cases) (simp_all add: nth_append)

lemma truncate_serialised:
  assumes "length rx = (n + 7) div 8"
  shows "length (take n (serialise rx)) = n
       \<and> take n (serialise rx) = serialise (take (n div 8) rx) @ map (bit (rx ! (n div 8))) [0..<n mod 8]
       \<and> serialise rx = take n (serialise rx)
            @ (if n mod 8 = 0 then [] else map (bit (last rx)) [n mod 8..<8])"
proof (cases "n mod 8 = 0")
  case True
  then have l: "length rx = n div 8" using assms by (simp add: bytes_exact)
  have n: "8 * length rx = n" unfolding l using True mult_div_mod_eq [of 8 n] by simp
  have t: "take n (serialise rx) = serialise rx"
    using n by (simp add: length_serialise)
  show ?thesis unfolding t using True l n by (simp add: length_serialise)
next
  case False
  then have l: "length rx = Suc (n div 8)" using assms by (simp add: bytes_partial)
  have a: "n div 8 < length rx" using l by simp
  have b: "n mod 8 \<le> 8" by simp
  have n: "8 * (n div 8) + n mod 8 = n" by simp
  have la: "last rx = rx ! (n div 8)"
    using l by (rule last_nth_Suc)
  have t: "take n (serialise rx) = serialise (take (n div 8) rx) @ map (bit (rx ! (n div 8))) [0..<n mod 8]"
    using take_serialise [OF a b] unfolding n by (simp add: take_byte_bits)
  have d: "drop n (serialise rx) = map (bit (last rx)) [n mod 8..<8]"
    using drop_serialise [OF a b] l unfolding n la by (simp add: drop_byte_bits serialise_def)
  have "length (take n (serialise rx)) = n"
    using l by (simp add: length_serialise)
  moreover have "serialise rx = take n (serialise rx) @ drop n (serialise rx)" by simp
  ultimately show ?thesis using t d False by simp
qed

text \<open>
  C7. In \<open>transfer_data_block\<close> the serialised encoder output is cut to its first \<open>n\<close>
  bits before modulation. For the buffers of any code, the encoder's receive buffer has
  \<open>ceil(n/8)\<close> bytes, the bits passed on are exactly \<open>n\<close>: all bits of the first
  \<open>n div 8\<close> bytes and the \<open>n mod 8\<close> least significant bits of the last byte; what
  is cut off is the rest of the last byte, its most significant bits.
\<close>

theorem encoded_data_bits_truncated:
  assumes "get_data_buffers env mem st code_name0 = Inr (bufs, st')"
  shows "length (encoder_output enc_core randint bufs) = nat \<lceil>real (block_n bufs) / 8\<rceil>
       \<and> length (encoded_data_bits enc_core randint bufs) = block_n bufs
       \<and> encoded_data_bits enc_core randint bufs
           = serialise (take (block_n bufs div 8) (encoder_output enc_core randint bufs))
             @ map (bit (encoder_output enc_core randint bufs ! (block_n bufs div 8)))
                 [0..<block_n bufs mod 8]
       \<and> serialise (encoder_output enc_core randint bufs)
           = encoded_data_bits enc_core randint bufs
             @ (if block_n bufs mod 8 = 0 then []
                else map (bit (last (encoder_output enc_core randint bufs)))
                       [block_n bufs mod 8..<8])"
proof -
  have l: "length (encoder_output enc_core randint bufs) = nat \<lceil>real (block_n bufs) / 8\<rceil>"
    unfolding encoder_output_def fec_data_transfer_def Let_def
    using get_data_buffers_enc_rx [OF assms] by simp
  then have "length (encoder_output enc_core randint bufs) = (block_n bufs + 7) div 8"
    by (simp add: ceil_bytes_div)
  from truncate_serialised [OF this] l show ?thesis
    unfolding encoded_data_bits_def Let_def by blast
qed

text \<open>
  DOCSIS medium, \<open>n = 5940\<close>: the encoder returns 743 bytes, 5940 bits are passed on,
  and the four most significant bits of the last byte are cut off.
\<close>

theorem encoded_data_bits_truncated_witness:
  "\<exists>bufs st'. get_data_buffers docsis_env (\<lambda>i. 0)
       \<lparr>enc_CORE_BYPASS = 0, dec_CORE_BYPASS = 0, enc_ctrl_buffer = 0, dec_ctrl_buffer = 0\<rparr>
       ''docsis_medium'' = Inr (bufs, st')
     \<and> length (encoder_output (\<lambda>tx i. 255) (\<lambda>i. 0) bufs) = 743
     \<and> length (encoded_data_bits (\<lambda>tx i. 255) (\<lambda>i. 0) bufs) = 5940
     \<and> serialise (encoder_output (\<lambda>tx i. 255) (\<lambda>i. 0) bufs)
         = encoded_data_bits (\<lambda>tx i. 255) (\<lambda>i. 0) bufs
           @ map (bit (last (encoder_output (\<lambda>tx i. 255) (\<lambda>i. 0) bufs))) [4..<8]"
proof -
  let ?st = "\<lparr>enc_CORE_BYPASS = 0, dec_CORE_BYPASS = 0, enc_ctrl_buffer = 0, dec_ctrl_buffer = 0\<rparr>"
  let ?c = "\<lparr>code_n = 5940, code_k = 5040, code_p = 180\<rparr>"
  have s: "fst (select_code ''docsis_medium'' ?st) = ''docsis_medium''"
    by (simp add: select_code_def)
  have m: "fst (select_code ''docsis_medium'' ?st) \<in> set (dec_ldpc_params docsis_env)"
    unfolding s by (simp add: docsis_env_def)
  have l: "ldpc docsis_env (fst (select_code ''docsis_medium'' ?st)) = Some ?c"
    unfolding s by (simp add: docsis_env_def)
  obtain bufs st' where
    g: "get_data_buffers docsis_env (\<lambda>i. 0) ?st ''docsis_medium'' = Inr (bufs, st')"
    and n: "block_n bufs = 5940"
    using get_data_buffers_sizes [OF m l, of "\<lambda>i. 0"] by auto
  have k: "nat \<lceil>real (5940::nat) / 8\<rceil> = 743" "(5940::nat) mod 8 = 4"
    "((4::nat) = 0) = False"
    by simp_all
  note t = encoded_data_bits_truncated [OF g, of "\<lambda>tx i. 255" "\<lambda>i. 0", unfolded n k if_False]
  show ?thesis
    using g t by blast
qed


section \<open>Properties of the bit error rate\<close>

lemma N_error_le: "N_error rx tx \<le> length tx"
  unfolding N_error_def
  by (rule order_trans [OF length_filter_le]) simp

lemma N_error_zero:
  assumes "length rx = length tx"
  shows "N_error rx tx = 0 \<longleftrightarrow> rx = tx"
  using assms unfolding N_error_def
  by (induction rx tx rule: list_induct2) auto

text \<open>
  C8. For transmitted and received bit arrays of one length that is not zero, the bit
  error rate is computed, lies between 0 and 1, and is 0 exactly when the received bit
  equals the transmitted bit at every position.
\<close>

theorem BER_range:
  assumes "length rx_bits = length tx_bits" "tx_bits \<noteq> []"
  shows "\<exists>b. BER rx_bits tx_bits = Some b \<and> 0 \<le> b \<and> b \<le> 1
           \<and> (b = 0 \<longleftrightarrow> (\<forall>i < length tx_bits. rx_bits ! i = tx_bits ! i))"
proof -
  let ?b = "real (N_error rx_bits tx_bits) / real (length tx_bits)"
  have pos: "0 < length tx_bits" using assms(2) by simp
  have b: "BER rx_bits tx_bits = Some ?b" unfolding BER_def using assms by simp
  have "0 \<le> ?b" by simp
  moreover have "?b \<le> 1" using N_error_le [of rx_bits tx_bits] pos by simp
  moreover have "?b = 0 \<longleftrightarrow> N_error rx_bits tx_bits = 0" using pos by simp
  moreover have "rx_bits = tx_bits \<longleftrightarrow> (\<forall>i < length tx_bits. rx_bits ! i = tx_bits ! i)"
    using assms(1) by (auto simp: list_eq_iff_nth_eq)
  ultimately show ?thesis using b N_error_zero [OF assms(1)] by simp
qed

theorem BER_range_witness:
  "BER [True, False, True, True] [True, True, True, False] = Some (1 / 2)
   \<and> BER [False, True] [False, True] = Some 0"
  using BER_range [of "[True, False, True, True]" "[True, True, True, False]"]
    BER_range [of "[False, True]" "[False, True]"]
  by (simp add: BER_def N_error_def)

section \<open>Properties of the interrupt flag\<close>

lemma next_snr_log: "filter is_get_ber (hw_log (next_snr cfg v)) = filter is_get_ber (hw_log v)"
  unfolding next_snr_def by simp

lemma loop_over_codes_log:
  "filter is_get_ber (hw_log (loop_over_codes cfg v)) = filter is_get_ber (hw_log v)"
  unfolding loop_over_codes_def Let_def by (simp split: sum.splits)

lemma main_process_log:
  "filter is_get_ber (hw_log (main_process cfg ber v)) = filter is_get_ber (hw_log v) @ [Get_ber ber]"
  unfolding main_process_def Let_def by (simp add: next_snr_log loop_over_codes_log)

lemma main_start_log:
  "filter is_get_ber (hw_log (main_start cfg v)) = filter is_get_ber (hw_log v)"
  unfolding main_start_def Let_def by (simp split: list.splits sum.splits)

lemma next_snr_pc: "status (next_snr cfg v) = Running \<Longrightarrow> pc (next_snr cfg v) = At_test"
  unfolding next_snr_def by (simp split: if_splits)

lemma main_process_pc:
  "status (main_process cfg ber v) = Running \<Longrightarrow> pc (main_process cfg ber v) = At_test"
  unfolding main_process_def Let_def
  by (auto simp: next_snr_pc split: if_splits)

lemma main_start_pc:
  "pc v = At_start \<Longrightarrow> pc (main_start cfg v) \<noteq> At_clear"
  "pc v = At_start \<Longrightarrow> pc (main_start cfg v) \<noteq> At_process"
  unfolding main_start_def Let_def
  by (simp_all split: list.splits sum.splits)

lemma intr_handler_frame:
  "intr_flag (intr_handler s) = 1" "(intr_handler s)\<lparr>intr_flag := intr_flag s\<rparr> = s"
  unfolding intr_handler_def by simp_all

lemma wrapper_frame:
  "(step cfg s Wrapper_poll)\<lparr>is_running := is_running s, wpc := wpc s\<rparr> = s"
  "(step cfg s Interrupt)\<lparr>intr_flag := intr_flag s, wpc := wpc s\<rparr> = s"
  "intr_flag (step cfg s Interrupt) = intr_flag s \<or> intr_flag (step cfg s Interrupt) = 1"
  unfolding step_def wrapper_do_def wrapper_wait_def intr_handler_def by simp_all

lemma step_poll:
  "intr_flag (step cfg s Wrapper_poll) = intr_flag s"
  "main_thread (step cfg s Wrapper_poll) = main_thread s"
  unfolding step_def wrapper_do_def by simp_all

lemma step_interrupt:
  "main_thread (step cfg s Interrupt) = main_thread s"
  "intr_flag (step cfg s Interrupt) = (if wpc s = At_wait then 1 else intr_flag s)"
  unfolding step_def wrapper_wait_def intr_handler_def by simp_all

lemma step_main:
  "status (main_thread s) \<noteq> Running \<Longrightarrow> step cfg s (Main_step ber) = s"
  "status (main_thread s) = Running \<Longrightarrow> pc (main_thread s) = At_start \<Longrightarrow>
     step cfg s (Main_step ber) = s\<lparr>main_thread := main_start cfg (main_thread s)\<rparr>"
  "status (main_thread s) = Running \<Longrightarrow> pc (main_thread s) = At_test \<Longrightarrow>
     step cfg s (Main_step ber) = main_test s"
  "status (main_thread s) = Running \<Longrightarrow> pc (main_thread s) = At_clear \<Longrightarrow>
     step cfg s (Main_step ber) = main_clear s"
  "status (main_thread s) = Running \<Longrightarrow> pc (main_thread s) = At_process \<Longrightarrow>
     step cfg s (Main_step ber) = s\<lparr>main_thread := main_process cfg ber (main_thread s)\<rparr>"
  unfolding step_def by simp_all

lemmas obs_defs = processed_def processing_def clearing_def main_test_def main_clear_def


lemma step_kinds:
  obtains (poll) "ev = Wrapper_poll"
  | (irq) "ev = Interrupt"
  | (idle) ber where "ev = Main_step ber" "status (main_thread s) \<noteq> Running"
  | (start) ber where "ev = Main_step ber" "status (main_thread s) = Running"
      "pc (main_thread s) = At_start"
  | (test) ber where "ev = Main_step ber" "status (main_thread s) = Running"
      "pc (main_thread s) = At_test"
  | (clear) ber where "ev = Main_step ber" "status (main_thread s) = Running"
      "pc (main_thread s) = At_clear"
  | (process) ber where "ev = Main_step ber" "status (main_thread s) = Running"
      "pc (main_thread s) = At_process"
proof (cases ev)
  case Wrapper_poll
  then show ?thesis by (rule poll)
next
  case Interrupt
  then show ?thesis by (rule irq)
next
  case (Main_step ber)
  show ?thesis
  proof (cases "status (main_thread s) = Running")
    case False
    with Main_step show ?thesis by (rule idle)
  next
    case True
    with Main_step show ?thesis
      by (cases "pc (main_thread s)") (auto intro: start test clear process)
  qed
qed

lemma step_flag_change:
  assumes "intr_flag (step cfg s ev) \<noteq> intr_flag s"
  shows "(ev = Interrupt \<and> intr_flag (step cfg s ev) = 1)
       \<or> ((\<exists>ber. ev = Main_step ber) \<and> clearing s
           \<and> intr_flag (step cfg s ev) = 0 \<and> processed (step cfg s ev) = processed s)"
proof (cases rule: step_kinds [where ev = ev and s = s])
  case poll
  then show ?thesis using assms by (simp add: step_poll)
next
  case irq
  then show ?thesis using assms by (simp add: step_interrupt split: if_splits)
next
  case (idle ber)
  then show ?thesis using assms by (simp add: step_main)
next
  case (start ber)
  then show ?thesis using assms by (simp add: step_main)
next
  case (test ber)
  then show ?thesis using assms by (simp add: step_main obs_defs split: if_splits)
next
  case (clear ber)
  then show ?thesis using assms by (simp add: step_main obs_defs)
next
  case (process ber)
  then show ?thesis using assms by (simp add: step_main)
qed

lemma step_processed_change:
  assumes "processed (step cfg s ev) \<noteq> processed s"
  shows "(\<exists>ber. ev = Main_step ber) \<and> processing s
       \<and> intr_flag (step cfg s ev) = intr_flag s
       \<and> processed (step cfg s ev) = Suc (processed s)"
proof (cases rule: step_kinds [where ev = ev and s = s])
  case poll
  then show ?thesis using assms by (simp add: step_poll processed_def)
next
  case irq
  then show ?thesis using assms by (simp add: step_interrupt processed_def)
next
  case (idle ber)
  then show ?thesis using assms by (simp add: step_main)
next
  case (start ber)
  then show ?thesis using assms by (simp add: step_main processed_def main_start_log)
next
  case (test ber)
  then show ?thesis using assms by (simp add: step_main obs_defs split: if_splits)
next
  case (clear ber)
  then show ?thesis using assms by (simp add: step_main obs_defs)
next
  case (process ber)
  then show ?thesis by (simp add: step_main obs_defs main_process_log)
qed

lemma step_enters_processing:
  assumes "processing (step cfg s ev)" "\<not> processing s"
  shows "(\<exists>ber. ev = Main_step ber) \<and> clearing s \<and> intr_flag (step cfg s ev) = 0"
proof (cases rule: step_kinds [where ev = ev and s = s])
  case poll
  then show ?thesis using assms by (simp add: step_poll processing_def)
next
  case irq
  then show ?thesis using assms by (simp add: step_interrupt processing_def)
next
  case (idle ber)
  then show ?thesis using assms by (simp add: step_main)
next
  case (start ber)
  then show ?thesis using assms by (simp add: step_main processing_def main_start_pc)
next
  case (test ber)
  then show ?thesis using assms by (simp add: step_main obs_defs split: if_splits)
next
  case (clear ber)
  then show ?thesis using assms by (simp add: step_main obs_defs)
next
  case (process ber)
  then show ?thesis using assms by (simp add: processing_def)
qed

lemma step_enters_clearing:
  assumes "clearing (step cfg s ev)" "\<not> clearing s"
  shows "(\<exists>ber. ev = Main_step ber) \<and> intr_flag s = 1 \<and> intr_flag (step cfg s ev) = 1"
proof (cases rule: step_kinds [where ev = ev and s = s])
  case poll
  then show ?thesis using assms by (simp add: step_poll clearing_def)
next
  case irq
  then show ?thesis using assms by (simp add: step_interrupt clearing_def)
next
  case (idle ber)
  then show ?thesis using assms by (simp add: step_main)
next
  case (start ber)
  then show ?thesis using assms by (simp add: step_main clearing_def main_start_pc)
next
  case (test ber)
  then show ?thesis using assms by (simp add: step_main obs_defs split: if_splits)
next
  case (clear ber)
  then show ?thesis using assms by (simp add: clearing_def)
next
  case (process ber)
  then show ?thesis
    using assms main_process_pc [of cfg ber "main_thread s"]
    by (auto simp: step_main clearing_def)
qed

lemma watch_inv_step:
  assumes "watch_inv s m"
  shows "\<exists>m'. observe s ev (step cfg s ev) m = Some m' \<and> watch_inv (step cfg s ev) m'"
proof (cases rule: step_kinds [where ev = ev and s = s])
  case poll
  then show ?thesis
    using assms unfolding watch_inv_def observe_def
    by (simp add: step_poll obs_defs)
next
  case irq
  then show ?thesis
    using assms unfolding watch_inv_def observe_def
    by (auto simp: step_interrupt obs_defs)
next
  case (idle ber)
  then show ?thesis
    using assms unfolding watch_inv_def observe_def by (simp add: step_main)
next
  case (start ber)
  then show ?thesis
    using assms unfolding watch_inv_def observe_def
    by (simp add: step_main obs_defs main_start_log main_start_pc)
next
  case (test ber)
  then show ?thesis
    using assms unfolding watch_inv_def observe_def
    by (simp add: step_main obs_defs)
next
  case (clear ber)
  then show ?thesis
    using assms unfolding watch_inv_def observe_def
    by (simp add: step_main obs_defs)
next
  case (process ber)
  then show ?thesis
    using assms main_process_pc [of cfg ber "main_thread s"]
    unfolding watch_inv_def observe_def
    by (auto simp: step_main obs_defs main_process_log)
qed

lemma watch_inv_run:
  "watch_inv s m \<Longrightarrow> \<exists>m'. watch cfg s m evs = Some m' \<and> watch_inv (run cfg s evs) m'"
proof (induction evs arbitrary: s m)
  case Nil
  then show ?case by (simp add: run_def)
next
  case (Cons ev evs)
  obtain m1 where m1: "observe s ev (step cfg s ev) m = Some m1" "watch_inv (step cfg s ev) m1"
    using watch_inv_step [OF Cons.prems] by blast
  from Cons.IH [OF m1(2)] m1(1) show ?case by (simp add: run_def)
qed

lemma watch_inv_init: "watch_inv init_state (False, False)"
  unfolding watch_inv_def init_state_def processing_def clearing_def by simp

lemma flag_inv_init: "flag_inv [] init_state"
  unfolding flag_inv_def init_state_def obs_defs by simp

lemma flag_inv_step:
  assumes "flag_inv evs s"
  shows "flag_inv (evs @ [ev]) (step cfg s ev)"
proof (cases rule: step_kinds [where ev = ev and s = s])
  case poll
  then show ?thesis
    using assms unfolding flag_inv_def by (simp add: step_poll obs_defs)
next
  case irq
  then show ?thesis
    using assms unfolding flag_inv_def
    by (auto simp: step_interrupt obs_defs split: if_splits)
next
  case (idle ber)
  then show ?thesis using assms unfolding flag_inv_def by (simp add: step_main)
next
  case (start ber)
  then show ?thesis
    using assms unfolding flag_inv_def
    by (simp add: step_main obs_defs main_start_log main_start_pc)
next
  case (test ber)
  then show ?thesis
    using assms unfolding flag_inv_def by (auto simp: step_main obs_defs)
next
  case (clear ber)
  then show ?thesis
    using assms unfolding flag_inv_def by (auto simp: step_main obs_defs)
next
  case (process ber)
  then show ?thesis
    using assms main_process_pc [of cfg ber "main_thread s"] unfolding flag_inv_def
    by (auto simp: step_main obs_defs main_process_log)
qed

lemma flag_inv_run: "flag_inv evs (run cfg init_state evs)"
proof (induction evs rule: rev_induct)
  case Nil
  show ?case by (simp add: run_def flag_inv_init)
next
  case (snoc ev evs)
  have "run cfg init_state (evs @ [ev]) = step cfg (run cfg init_state evs) ev"
    by (simp add: run_def)
  with flag_inv_step [OF snoc] show ?case by simp
qed

lemma interrupt_commutes:
  assumes "pc (main_thread s) = At_start \<or> pc (main_thread s) = At_process"
  shows "step cfg (step cfg s Interrupt) (Main_step ber)
       = step cfg (step cfg s (Main_step ber)) Interrupt"
  using assms unfolding step_def wrapper_wait_def intr_handler_def
  by (auto split: main_pc.splits)

lemma poll_commutes:
  "step cfg (step cfg s Wrapper_poll) (Main_step ber)
     = step cfg (step cfg s (Main_step ber)) Wrapper_poll"
  unfolding step_def wrapper_do_def main_test_def main_clear_def
  by (auto split: main_pc.splits)


text \<open>
  C10. \<open>intr_handler\<close> sets \<open>intr_flag\<close> to 1 and changes nothing else, and the
  wrapper changes nothing but its own \<open>is_running\<close> and, through the callback, the
  flag. A step changes the flag in two ways only: the interrupt path sets it to 1, and
  the main loop at \<open>intr_flag = 0\<close> sets it to 0, processing nothing in that step. A
  measurement is processed only by the main loop behind that assignment, one at a
  time, in a step that leaves the flag as it is; the main loop gets there only through
  the step that clears the flag, and gets to that step only with the flag at 1. The
  start of \<open>main\<close> and the processing commute with the interrupt, and every step of the
  main thread with the wrapper's own step, so taking each as one step loses no
  interleaving. In every execution from the start of the threads the observer refuses
  nothing: each measurement processed comes after the main loop cleared the flag, and
  each clearing after the interrupt path set it; the main loop stands at the clearing
  only while the flag is 1; and the measurements processed never outnumber the
  interrupts.
\<close>

theorem intr_flag_protocol:
  "intr_flag (intr_handler s) = 1
   \<and> (intr_handler s)\<lparr>intr_flag := intr_flag s\<rparr> = s
   \<and> (step cfg s Wrapper_poll)\<lparr>is_running := is_running s, wpc := wpc s\<rparr> = s
   \<and> (step cfg s Interrupt)\<lparr>intr_flag := intr_flag s, wpc := wpc s\<rparr> = s
   \<and> (intr_flag (step cfg s Interrupt) = intr_flag s \<or> intr_flag (step cfg s Interrupt) = 1)
   \<and> (intr_flag (step cfg s ev) \<noteq> intr_flag s \<longrightarrow>
        (ev = Interrupt \<and> intr_flag (step cfg s ev) = 1)
        \<or> ((\<exists>ber. ev = Main_step ber) \<and> clearing s
            \<and> intr_flag (step cfg s ev) = 0 \<and> processed (step cfg s ev) = processed s))
   \<and> (processed (step cfg s ev) \<noteq> processed s \<longrightarrow>
        (\<exists>ber. ev = Main_step ber) \<and> processing s
        \<and> intr_flag (step cfg s ev) = intr_flag s
        \<and> processed (step cfg s ev) = Suc (processed s))
   \<and> (processing (step cfg s ev) \<and> \<not> processing s \<longrightarrow>
        (\<exists>ber. ev = Main_step ber) \<and> clearing s \<and> intr_flag (step cfg s ev) = 0)
   \<and> (clearing (step cfg s ev) \<and> \<not> clearing s \<longrightarrow>
        (\<exists>ber. ev = Main_step ber) \<and> intr_flag s = 1 \<and> intr_flag (step cfg s ev) = 1)
   \<and> (pc (main_thread s) = At_start \<or> pc (main_thread s) = At_process \<longrightarrow>
        step cfg (step cfg s Interrupt) (Main_step ber0)
          = step cfg (step cfg s (Main_step ber0)) Interrupt)
   \<and> step cfg (step cfg s Wrapper_poll) (Main_step ber0)
        = step cfg (step cfg s (Main_step ber0)) Wrapper_poll
   \<and> (\<exists>m. watch cfg init_state (False, False) evs = Some m)
   \<and> (clearing (run cfg init_state evs) \<longrightarrow> intr_flag (run cfg init_state evs) = 1)
   \<and> processed (run cfg init_state evs) \<le> count_list evs Interrupt"
proof -
  have w: "\<exists>m. watch cfg init_state (False, False) evs = Some m"
    using watch_inv_run [OF watch_inv_init, of cfg evs] by blast
  have i: "clearing (run cfg init_state evs) \<longrightarrow> intr_flag (run cfg init_state evs) = 1"
    "processed (run cfg init_state evs) \<le> count_list evs Interrupt"
    using flag_inv_run [of evs cfg] unfolding flag_inv_def by (simp_all split: if_splits)
  have c: "pc (main_thread s) = At_start \<or> pc (main_thread s) = At_process \<longrightarrow>
        step cfg (step cfg s Interrupt) (Main_step ber0)
          = step cfg (step cfg s (Main_step ber0)) Interrupt"
    using interrupt_commutes [of s cfg ber0] by blast
  have f: "intr_flag (step cfg s ev) \<noteq> intr_flag s \<longrightarrow>
        (ev = Interrupt \<and> intr_flag (step cfg s ev) = 1)
        \<or> ((\<exists>ber. ev = Main_step ber) \<and> clearing s
            \<and> intr_flag (step cfg s ev) = 0 \<and> processed (step cfg s ev) = processed s)"
    using step_flag_change [of cfg s ev] by blast
  have p: "processed (step cfg s ev) \<noteq> processed s \<longrightarrow>
        (\<exists>ber. ev = Main_step ber) \<and> processing s
        \<and> intr_flag (step cfg s ev) = intr_flag s
        \<and> processed (step cfg s ev) = Suc (processed s)"
    using step_processed_change [of cfg s ev] by blast
  have e: "processing (step cfg s ev) \<and> \<not> processing s \<longrightarrow>
        (\<exists>ber. ev = Main_step ber) \<and> clearing s \<and> intr_flag (step cfg s ev) = 0"
    using step_enters_processing [of cfg s ev] by blast
  have g: "clearing (step cfg s ev) \<and> \<not> clearing s \<longrightarrow>
        (\<exists>ber. ev = Main_step ber) \<and> intr_flag s = 1 \<and> intr_flag (step cfg s ev) = 1"
    using step_enters_clearing [of cfg s ev] by blast
  show ?thesis
    by (intro conjI intr_handler_frame wrapper_frame f p e g c poll_commutes w i)
qed

text \<open>
  An example run: the start; a round of the wrapper and the interrupt; the test and the
  clearing; a second round and interrupt while the measurement waits; the processing,
  which leaves the flag at 1 for the next turn of the loop.
\<close>

lemmas main_loop_defs =
  step_def wrapper_do_def wrapper_wait_def intr_handler_def main_start_def main_test_def
  main_clear_def main_process_def loop_over_codes_def next_snr_def init_state_def cfg0_def

theorem intr_flag_protocol_witness:
  "run cfg0 init_state
     [Main_step 0, Wrapper_poll, Interrupt, Main_step 0, Main_step 0, Wrapper_poll, Interrupt]
     = \<lparr>intr_flag = 1, is_running = True, wpc = At_do,
        main_thread = \<lparr>pc = At_process, status = Running, codes_progress = 0, snr_progress = 0,
          BER_acc = [], BERs = [],
          hw_log = [Set_ldpc_code ''docsis_short'', Set_signal_length, Set_snr 2, Set_scaling,
                    Set_ber_length, Rng_start]\<rparr>\<rparr>
   \<and> run cfg0 init_state
     [Main_step 0, Wrapper_poll, Interrupt, Main_step 0, Main_step 0, Wrapper_poll, Interrupt,
      Main_step (1 / 4)]
     = \<lparr>intr_flag = 1, is_running = True, wpc = At_do,
        main_thread = \<lparr>pc = At_test, status = Running, codes_progress = 0, snr_progress = 1,
          BER_acc = [1 / 4], BERs = [],
          hw_log = [Set_ldpc_code ''docsis_short'', Set_signal_length, Set_snr 2, Set_scaling,
                    Set_ber_length, Rng_start, Get_ber (1 / 4), Ber_reset, Set_snr 1,
                    Set_scaling, Set_ber_length, Rng_start]\<rparr>\<rparr>
   \<and> watch cfg0 init_state (False, False)
     [Main_step 0, Wrapper_poll, Interrupt, Main_step 0, Main_step 0, Wrapper_poll, Interrupt,
      Main_step (1 / 4)] = Some (True, False)
   \<and> processed (run cfg0 init_state
     [Main_step 0, Wrapper_poll, Interrupt, Main_step 0, Main_step 0, Wrapper_poll, Interrupt,
      Main_step (1 / 4)]) = 1
   \<and> count_list
     [Main_step 0, Wrapper_poll, Interrupt, Main_step 0, Main_step 0, Wrapper_poll, Interrupt,
      Main_step (1 / 4)] Interrupt = 2"
proof -
  let ?before =
    "[Main_step 0, Wrapper_poll, Interrupt, Main_step 0, Main_step 0, Wrapper_poll, Interrupt]"
  let ?tr =
    "[Main_step 0, Wrapper_poll, Interrupt, Main_step 0, Main_step 0, Wrapper_poll, Interrupt,
      Main_step (1 / 4)]"
  have b: "run cfg0 init_state ?before
     = \<lparr>intr_flag = 1, is_running = True, wpc = At_do,
        main_thread = \<lparr>pc = At_process, status = Running, codes_progress = 0, snr_progress = 0,
          BER_acc = [], BERs = [],
          hw_log = [Set_ldpc_code ''docsis_short'', Set_signal_length, Set_snr 2, Set_scaling,
                    Set_ber_length, Rng_start]\<rparr>\<rparr>"
    by (simp add: run_def main_loop_defs)
  have a: "run cfg0 init_state ?tr = step cfg0 (run cfg0 init_state ?before) (Main_step (1 / 4))"
    by (simp add: run_def)
  have c: "run cfg0 init_state ?tr
     = \<lparr>intr_flag = 1, is_running = True, wpc = At_do,
        main_thread = \<lparr>pc = At_test, status = Running, codes_progress = 0, snr_progress = 1,
          BER_acc = [1 / 4], BERs = [],
          hw_log = [Set_ldpc_code ''docsis_short'', Set_signal_length, Set_snr 2, Set_scaling,
                    Set_ber_length, Rng_start, Get_ber (1 / 4), Ber_reset, Set_snr 1,
                    Set_scaling, Set_ber_length, Rng_start]\<rparr>\<rparr>"
    unfolding a b by (simp add: step_def main_process_def loop_over_codes_def next_snr_def cfg0_def)
  have p: "processed (run cfg0 init_state ?tr) = 1"
    unfolding c by (simp add: processed_def)
  have w: "watch cfg0 init_state (False, False) ?tr = Some (True, False)"
    by (simp add: observe_def processed_def main_loop_defs)
  have le: "processed (run cfg0 init_state ?tr) \<le> count_list ?tr Interrupt"
    using intr_flag_protocol [of "run cfg0 init_state ?before" cfg0 "Main_step (1 / 4)" 0 ?tr]
    by blast
  show ?thesis
    using b c p w le by simp
qed

end
